theory Spec2Isabelle
  imports Main "HOL-Library.Char_ord" "HOL-Library.List_Lexorder"
begin

section \<open>JavaScript strings\<close>

text \<open>
  A JavaScript string is a sequence of UTF-16 code units. The model uses \<^typ>\<open>string\<close>:
  one \<^typ>\<open>char\<close> is one code unit, and the 256 values of \<^typ>\<open>char\<close> stand for the code
  units U+0000 to U+00FF. All character classes below are the restrictions of the
  ECMAScript classes to that range.
\<close>

definition is_white_space :: "char \<Rightarrow> bool" where
  \<comment> \<open>\<open>\s\<close> and the characters removed by \<open>trim()\<close>: TAB, LF, VT, FF, CR, SP, NBSP\<close>
  "is_white_space c = (c \<in> set [CHR 0x09, CHR 0x0A, CHR 0x0B, CHR 0x0C, CHR 0x0D, CHR 0x20, CHR 0xA0])"

definition is_line_terminator :: "char \<Rightarrow> bool" where
  \<comment> \<open>the characters that \<open>.\<close> does not match: LF and CR\<close>
  "is_line_terminator c = (c = CHR 0x0A \<or> c = CHR 0x0D)"

definition ascii_upper :: string where
  "ascii_upper = ''ABCDEFGHIJKLMNOPQRSTUVWXYZ''"

definition ascii_lower :: string where
  "ascii_lower = ''abcdefghijklmnopqrstuvwxyz''"

definition ascii_digit :: string where
  "ascii_digit = ''0123456789''"

definition latin1_upper :: string where
  \<comment> \<open>U+00C0..U+00DE without the multiplication sign U+00D7\<close>
  "latin1_upper =
     [CHR 0xC0, CHR 0xC1, CHR 0xC2, CHR 0xC3, CHR 0xC4, CHR 0xC5, CHR 0xC6, CHR 0xC7,
      CHR 0xC8, CHR 0xC9, CHR 0xCA, CHR 0xCB, CHR 0xCC, CHR 0xCD, CHR 0xCE, CHR 0xCF,
      CHR 0xD0, CHR 0xD1, CHR 0xD2, CHR 0xD3, CHR 0xD4, CHR 0xD5, CHR 0xD6,
      CHR 0xD8, CHR 0xD9, CHR 0xDA, CHR 0xDB, CHR 0xDC, CHR 0xDD, CHR 0xDE]"

definition latin1_lower :: string where
  \<comment> \<open>U+00E0..U+00FE without the division sign U+00F7\<close>
  "latin1_lower =
     [CHR 0xE0, CHR 0xE1, CHR 0xE2, CHR 0xE3, CHR 0xE4, CHR 0xE5, CHR 0xE6, CHR 0xE7,
      CHR 0xE8, CHR 0xE9, CHR 0xEA, CHR 0xEB, CHR 0xEC, CHR 0xED, CHR 0xEE, CHR 0xEF,
      CHR 0xF0, CHR 0xF1, CHR 0xF2, CHR 0xF3, CHR 0xF4, CHR 0xF5, CHR 0xF6,
      CHR 0xF8, CHR 0xF9, CHR 0xFA, CHR 0xFB, CHR 0xFC, CHR 0xFD, CHR 0xFE]"

definition lower_char :: "char \<Rightarrow> char" where
  "lower_char c =
     (case map_of (zip (ascii_upper @ latin1_upper) (ascii_lower @ latin1_lower)) c of
        Some l \<Rightarrow> l
      | None \<Rightarrow> c)"

definition toLowerCase :: "string \<Rightarrow> string" where
  "toLowerCase s = map lower_char s"

definition trim :: "string \<Rightarrow> string" where
  "trim s = rev (dropWhile is_white_space (rev (dropWhile is_white_space s)))"

definition startsWith :: "string \<Rightarrow> string \<Rightarrow> bool" where
  "startsWith s p = (take (length p) s = p)"

definition endsWith :: "string \<Rightarrow> string \<Rightarrow> bool" where
  "endsWith s p = (length p \<le> length s \<and> drop (length s - length p) s = p)"

fun includes_str :: "string \<Rightarrow> string \<Rightarrow> bool" where
  "includes_str [] sub = (sub = [])"
| "includes_str (c # cs) sub = (startsWith (c # cs) sub \<or> includes_str cs sub)"

fun lastIndexOf :: "string \<Rightarrow> char \<Rightarrow> int" where
  \<comment> \<open>index of the last occurrence, \<open>-1\<close> when there is none\<close>
  "lastIndexOf [] ch = -1"
| "lastIndexOf (c # cs) ch =
     (let i = lastIndexOf cs ch in
      if 0 \<le> i then i + 1 else if c = ch then 0 else -1)"

definition substring_from :: "string \<Rightarrow> int \<Rightarrow> string" where
  \<comment> \<open>\<open>s.substring(i)\<close>: a negative start counts as 0\<close>
  "substring_from s i = drop (nat i) s"

fun split_lines :: "string \<Rightarrow> string list" where
  \<comment> \<open>\<open>s.split("\n")\<close>: never empty, \<open>"".split("\n")\<close> is \<open>[""]\<close>\<close>
  "split_lines [] = [[]]"
| "split_lines (c # cs) =
     (if c = CHR 0x0A then [] # split_lines cs
      else (case split_lines cs of
              l # ls \<Rightarrow> (c # l) # ls
            | [] \<Rightarrow> [[c]]))"

section \<open>Path Guard (src/lib/fileSystem.ts)\<close>

definition is_reserved :: "char \<Rightarrow> bool" where
  \<comment> \<open>the class \<open>[<>:"|?*\x00-\x1f]\<close>\<close>
  "is_reserved c =
     (c \<in> set [CHR ''<'', CHR ''>'', CHR '':'', CHR 0x22, CHR ''|'', CHR ''?'', CHR ''*'']
      \<or> (of_char c :: nat) \<le> 0x1f)"

definition isValidName :: "string \<Rightarrow> bool" where
  "isValidName name =
     (if name = [] \<or> trim name = [] then False
      else if includes_str name ''..'' \<or> includes_str name ''/'' \<or> includes_str name [CHR 0x5C] then False
      else if startsWith name ''.'' then False
      else if \<exists>c \<in> set name. is_reserved c then False
      else True)"

fun remove_dotdot :: "string \<Rightarrow> string" where
  \<comment> \<open>\<open>.replace(/\.\./g, "")\<close>: one left-to-right pass over non-overlapping matches\<close>
  "remove_dotdot (a # b # cs) =
     (if a = CHR ''.'' \<and> b = CHR ''.'' then remove_dotdot cs else a # remove_dotdot (b # cs))"
| "remove_dotdot cs = cs"

definition is_separator :: "char \<Rightarrow> bool" where
  \<comment> \<open>the class \<open>[/\\]\<close>\<close>
  "is_separator c = (c = CHR ''/'' \<or> c = CHR 0x5C)"

definition sanitizeFileName :: "string \<Rightarrow> string" where
  "sanitizeFileName name =
     trim (filter (\<lambda>c. \<not> is_reserved c) (filter (\<lambda>c. \<not> is_separator c) (remove_dotdot name)))"

section \<open>Storage primitives\<close>

text \<open>
  The functions of \<open>@tauri-apps/plugin-fs\<close> and \<open>@tauri-apps/plugin-store\<close> are external.
  A primitive is a parameter of the function that calls it: it takes the state of the
  storage and returns its result, or the error of a rejected promise, with the new state.
  Nothing is assumed about what a primitive does.
\<close>

datatype error = Rejected

type_synonym ('s, 'a) io = "'s \<Rightarrow> (error + 'a) \<times> 's"

section \<open>Repository mutator moveItem (src/lib/fileSystem.ts)\<close>

definition moveItem ::
  "(string \<Rightarrow> ('s, bool) io) \<Rightarrow> (string \<Rightarrow> string \<Rightarrow> ('s, unit) io) \<Rightarrow>
   string \<Rightarrow> string \<Rightarrow> 's \<Rightarrow> string option \<times> 's" where
  "moveItem fs_exists fs_rename sourcePath targetFolder s =
     (let itemName = substring_from sourcePath (lastIndexOf sourcePath CHR ''/'' + 1) in
      if \<not> isValidName itemName then (None, s)
      else
        let newPath = targetFolder @ ''/'' @ itemName in
        if targetFolder = sourcePath \<or> startsWith targetFolder (sourcePath @ ''/'') then (None, s)
        else if newPath = sourcePath then (None, s)
        else
          (case fs_exists newPath s of
             (Inl e, s1) \<Rightarrow> (None, s1)
           | (Inr targetExists, s1) \<Rightarrow>
               if targetExists then (None, s1)
               else
                 (case fs_rename sourcePath newPath s1 of
                    (Inl e, s2) \<Rightarrow> (None, s2)
                  | (Inr u, s2) \<Rightarrow> (Some newPath, s2))))"

text \<open>A storage that only records the calls made to it, for concrete runs.\<close>

datatype fs_call = Exists string | Rename string string

definition traced_exists :: "string \<Rightarrow> (fs_call list, bool) io" where
  "traced_exists p calls = (Inr False, calls @ [Exists p])"

definition traced_rename :: "string \<Rightarrow> string \<Rightarrow> (fs_call list, unit) io" where
  "traced_rename p q calls = (Inr (), calls @ [Rename p q])"

section \<open>Heading extractor (src/hooks/useMarkdownHeadings.ts)\<close>

definition is_word_char :: "char \<Rightarrow> bool" where
  \<comment> \<open>\<open>\w\<close>: \<open>[A-Za-z0-9_]\<close>\<close>
  "is_word_char c = (c \<in> set (ascii_upper @ ascii_lower @ ascii_digit @ ''_''))"

record Heading =
  heading_id :: string
  heading_text :: string
  heading_level :: nat
  heading_line :: nat

definition dot_plus_to_end :: "string \<Rightarrow> bool" where
  \<comment> \<open>\<open>(.+)$\<close> at the start of \<open>s\<close>: \<open>s\<close> is not empty and has no line terminator\<close>
  "dot_plus_to_end s = (s \<noteq> [] \<and> \<not> (\<exists>c \<in> set s. is_line_terminator c))"

definition headingRegex_attempts :: "string \<Rightarrow> (nat \<times> nat) list" where
  \<comment> \<open>the successful ways to match \<open>^(#{1,6})\s+(.+)$\<close>, in the order in which backtracking
      finds them: \<open>k\<close> hashes and \<open>j\<close> white space characters, both greedy\<close>
  "headingRegex_attempts ln =
     (let hashes = length (takeWhile (\<lambda>c. c = CHR ''#'') ln) in
      [(k, j).
         k \<leftarrow> rev [1..<Suc (min 6 hashes)],
         j \<leftarrow> rev [1..<Suc (length (takeWhile is_white_space (drop k ln)))],
         dot_plus_to_end (drop (k + j) ln)])"

definition headingRegex_exec :: "string \<Rightarrow> (string \<times> string) option" where
  \<comment> \<open>the captures \<open>(match[1], match[2])\<close> of the first successful attempt\<close>
  "headingRegex_exec ln =
     (case headingRegex_attempts ln of
        [] \<Rightarrow> None
      | (k, j) # rest \<Rightarrow> Some (take k ln, drop (k + j) ln))"

function replace_space_runs :: "string \<Rightarrow> string" where
  "replace_space_runs [] = []"
| "replace_space_runs (c # cs) =
     (if is_white_space c then CHR ''-'' # replace_space_runs (dropWhile is_white_space cs)
      else c # replace_space_runs cs)"
  by pat_completeness auto
termination
  by (relation "measure length") (auto simp: length_dropWhile_le le_imp_less_Suc)

definition heading_slug :: "string \<Rightarrow> string" where
  "heading_slug text =
     replace_space_runs
       (filter (\<lambda>c. is_word_char c \<or> is_white_space c \<or> c = CHR ''-'') (toLowerCase text))"

fun collect_headings :: "string list \<Rightarrow> nat \<Rightarrow> Heading list \<Rightarrow> Heading list" where
  "collect_headings [] index headings = headings"
| "collect_headings (ln # lns) index headings =
     (case headingRegex_exec ln of
        None \<Rightarrow> collect_headings lns (index + 1) headings
      | Some (m1, m2) \<Rightarrow>
          (let level = length m1;
               text = trim m2;
               ident = heading_slug text
           in collect_headings lns (index + 1)
                (headings @ [\<lparr>heading_id = ident, heading_text = text,
                              heading_level = level, heading_line = index + 1\<rparr>])))"

definition useMarkdownHeadings :: "string \<Rightarrow> Heading list" where
  "useMarkdownHeadings content = collect_headings (split_lines content) 0 []"

text \<open>
  The regular language of \<open>^#{1,6}\s+(.+)$\<close>, and the entry the extractor is expected to
  produce for line \<open>i\<close> (counted from 0), stated without reference to the matching order.
\<close>

definition matches_headingRegex :: "string \<Rightarrow> bool" where
  "matches_headingRegex ln =
     (\<exists>k ws t. ln = replicate k CHR ''#'' @ ws @ t \<and> 1 \<le> k \<and> k \<le> 6
        \<and> ws \<noteq> [] \<and> list_all is_white_space ws
        \<and> t \<noteq> [] \<and> list_all (\<lambda>c. \<not> is_line_terminator c) t)"

definition heading_of_line :: "nat \<Rightarrow> string \<Rightarrow> Heading" where
  "heading_of_line i ln =
     \<lparr>heading_id = heading_slug (trim (dropWhile (\<lambda>c. c = CHR ''#'') ln)),
      heading_text = trim (dropWhile (\<lambda>c. c = CHR ''#'') ln),
      heading_level = length (takeWhile (\<lambda>c. c = CHR ''#'') ln),
      heading_line = i + 1\<rparr>"

text \<open>The slug as the specification words it: no exemption for the hyphen.\<close>

definition claimed_heading_slug :: "string \<Rightarrow> string" where
  "claimed_heading_slug text =
     replace_space_runs (filter (\<lambda>c. is_word_char c \<or> is_white_space c) (toLowerCase text))"

section \<open>Note store (src/store/noteStore.ts)\<close>

datatype FileNode =
  FileNode (name: string) (path: string) (isDirectory: bool)
    (children: "FileNode list option") (isFavorite: "bool option")

record SearchResult =
  result_path :: string
  result_name :: string
  matches :: "(nat \<times> string) list"

record Backlink =
  backlink_path :: string
  backlink_name :: string
  backlink_context :: string

record TagInfo =
  tag :: string
  count :: nat

record NoteState =
  files :: "FileNode list"
  currentNote :: "string option"
  content :: string
  isDirty :: bool
  isLoading :: bool
  isSaving :: bool
  favorites :: "string list"
  recentNotes :: "string list"
  searchQuery :: string
  searchResults :: "SearchResult list"
  isSearching :: bool
  backlinks :: "Backlink list"
  allTags :: "TagInfo list"
  selectedTag :: "string option"

definition initialState :: NoteState where
  "initialState =
     \<lparr>files = [], currentNote = None, content = [], isDirty = False, isLoading = False,
      isSaving = False, favorites = [], recentNotes = [], searchQuery = [],
      searchResults = [], isSearching = False, backlinks = [], allTags = [],
      selectedTag = None\<rparr>"

text \<open>
  The handle of \<open>notes-meta.json\<close>: \<open>getMetaStore\<close> (which loads the store on first use),
  \<open>store.set\<close> and \<open>store.save\<close>. Each may reject. \<open>persist\<close> is the sequence of the three
  awaits that \<open>loadNote\<close> and \<open>toggleFavorite\<close> both run.
\<close>

record 'm meta_api =
  getMetaStore :: "('m, unit) io"
  store_set :: "string \<Rightarrow> string list \<Rightarrow> ('m, unit) io"
  store_save :: "('m, unit) io"

definition persist :: "'m meta_api \<Rightarrow> string \<Rightarrow> string list \<Rightarrow> ('m, unit) io" where
  "persist api key val m =
     (case getMetaStore api m of
        (Inl e, m1) \<Rightarrow> (Inl e, m1)
      | (Inr u, m1) \<Rightarrow>
          (case store_set api key val m1 of
             (Inl e, m2) \<Rightarrow> (Inl e, m2)
           | (Inr u, m2) \<Rightarrow> store_save api m2))"

text \<open>
  \<open>loadNote\<close> and \<open>toggleFavorite\<close> are modelled run to completion, with no other store
  action between their awaits. \<open>loadNote\<close> catches every rejection; \<open>toggleFavorite\<close> has no
  handler, so a rejection leaves the state as it was and is returned.
\<close>

definition loadNote ::
  "(string \<Rightarrow> ('f, string) io) \<Rightarrow> 'm meta_api \<Rightarrow> string \<Rightarrow>
   NoteState \<times> 'f \<times> 'm \<Rightarrow> NoteState \<times> 'f \<times> 'm" where
  "loadNote readTextFile api p = (\<lambda>(st, f, m).
     let st1 = st\<lparr>isLoading := True\<rparr> in
     case readTextFile p f of
       (Inl e, f1) \<Rightarrow> (st1\<lparr>isLoading := False\<rparr>, f1, m)
     | (Inr body, f1) \<Rightarrow>
         (let updated = take 10 (p # filter (\<lambda>q. q \<noteq> p) (recentNotes st1)) in
          case persist api ''recentNotes'' updated m of
            (Inl e, m1) \<Rightarrow> (st1\<lparr>isLoading := False\<rparr>, f1, m1)
          | (Inr u, m1) \<Rightarrow>
              (st1\<lparr>currentNote := Some p, content := body, isDirty := False,
                   isLoading := False, recentNotes := updated\<rparr>, f1, m1)))"

fun updateFavorites_node :: "string list \<Rightarrow> FileNode \<Rightarrow> FileNode" where
  "updateFavorites_node updated (FileNode n p d ch fav) =
     FileNode n p d (map_option (map (updateFavorites_node updated)) ch) (Some (p \<in> set updated))"

definition updateFavorites :: "string list \<Rightarrow> FileNode list \<Rightarrow> FileNode list" where
  "updateFavorites updated nodes = map (updateFavorites_node updated) nodes"

definition toggleFavorite ::
  "'m meta_api \<Rightarrow> string \<Rightarrow> NoteState \<times> 'm \<Rightarrow> (error + unit) \<times> NoteState \<times> 'm" where
  "toggleFavorite api p = (\<lambda>(st, m).
     let isFav = p \<in> set (favorites st);
         updated = (if isFav then filter (\<lambda>q. q \<noteq> p) (favorites st) else favorites st @ [p])
     in case persist api ''favorites'' updated m of
          (Inl e, m1) \<Rightarrow> (Inl e, st, m1)
        | (Inr u, m1) \<Rightarrow>
            (Inr (), st\<lparr>favorites := updated, files := updateFavorites updated (files st)\<rparr>, m1))"

text \<open>
  For concrete runs: a metadata store that accepts every call and records what is set, and
  a \<open>readTextFile\<close> that reads from a list of files and rejects for any other path.
\<close>

definition recording_api :: "(string \<times> string list) list meta_api" where
  "recording_api =
     \<lparr>getMetaStore = (\<lambda>m. (Inr (), m)),
      store_set = (\<lambda>key val m. (Inr (), m @ [(key, val)])),
      store_save = (\<lambda>m. (Inr (), m))\<rparr>"

definition read_from :: "(string \<times> string) list \<Rightarrow> string \<Rightarrow> (unit, string) io" where
  "read_from disk p f = (case map_of disk p of None \<Rightarrow> (Inl Rejected, f) | Some body \<Rightarrow> (Inr body, f))"

text \<open>The nodes of a subtree at every depth, and a node without its favourite marks.\<close>

fun all_nodes :: "FileNode \<Rightarrow> FileNode list" where
  "all_nodes (FileNode n p d ch fav) =
     FileNode n p d ch fav # (case ch of None \<Rightarrow> [] | Some cs \<Rightarrow> concat (map all_nodes cs))"

fun erase_favorite :: "FileNode \<Rightarrow> FileNode" where
  "erase_favorite (FileNode n p d ch fav) =
     FileNode n p d (map_option (map erase_favorite) ch) None"

definition sample_tree :: "FileNode list" where
  "sample_tree =
     [FileNode ''d'' ''/n/d'' True
        (Some [FileNode ''a.md'' ''/n/d/a.md'' False None (Some False)]) (Some True),
      FileNode ''b.md'' ''/n/b.md'' False None None]"

section \<open>Tree builder readNotesDirectory (src/lib/fileSystem.ts)\<close>

text \<open>
  \<open>Array.prototype.sort\<close> with a comparison function is a stable sort. For a consistent
  comparison function its result is the one stable sorted arrangement, which insertion from
  the right computes: an element goes before the first element it does not compare
  greater than.
\<close>

fun insert_by :: "('a \<Rightarrow> 'a \<Rightarrow> int) \<Rightarrow> 'a \<Rightarrow> 'a list \<Rightarrow> 'a list" where
  "insert_by cmp x [] = [x]"
| "insert_by cmp x (y # ys) = (if cmp x y \<le> 0 then x # y # ys else y # insert_by cmp x ys)"

definition array_sort :: "('a \<Rightarrow> 'a \<Rightarrow> int) \<Rightarrow> 'a list \<Rightarrow> 'a list" where
  "array_sort cmp xs = foldr (insert_by cmp) xs []"

text \<open>
  What \<open>readDir\<close> finds: an entry has a name, the \<open>isDirectory\<close> flag, and, for a
  directory, the result of \<open>readDir\<close> on its full path (\<open>None\<close> when that call rejects). The
  directory tree is finite. \<open>localeCompare\<close> is the platform's collation of two names; it is
  a parameter.
\<close>

datatype DirEntry =
  DirEntry (entry_name: string) (entry_isDirectory: bool) (entry_listing: "DirEntry list option")

definition compareNodes :: "(string \<Rightarrow> string \<Rightarrow> int) \<Rightarrow> FileNode \<Rightarrow> FileNode \<Rightarrow> int" where
  "compareNodes localeCompare a b =
     (if isDirectory a \<and> \<not> isDirectory b then -1
      else if \<not> isDirectory a \<and> isDirectory b then 1
      else localeCompare (name a) (name b))"

fun readNotesDirectory ::
    "(string \<Rightarrow> string \<Rightarrow> int) \<Rightarrow> string \<Rightarrow> DirEntry list option \<Rightarrow> FileNode list"
  and readEntry :: "(string \<Rightarrow> string \<Rightarrow> int) \<Rightarrow> string \<Rightarrow> DirEntry \<Rightarrow> FileNode list" where
  "readNotesDirectory localeCompare p None = []"
| "readNotesDirectory localeCompare p (Some entries) =
     array_sort (compareNodes localeCompare) (concat (map (readEntry localeCompare p) entries))"
| "readEntry localeCompare p (DirEntry nm isDir listing) =
     (if startsWith nm ''.'' then []
      else
        let fullPath = p @ ''/'' @ nm in
        if isDir then
          [FileNode nm fullPath True (Some (readNotesDirectory localeCompare fullPath listing)) None]
        else if \<not> endsWith nm ''.md'' then []
        else [FileNode nm fullPath False None None])"

text \<open>
  The order the tree builder is to establish among siblings: no file before a directory,
  and within the directories and within the files the order of \<open>localeCompare\<close>;
  \<open>sorted_at_every_level\<close> asks it of the top level and of the children of every node.
\<close>

definition precedes :: "(string \<Rightarrow> string \<Rightarrow> int) \<Rightarrow> FileNode \<Rightarrow> FileNode \<Rightarrow> bool" where
  "precedes localeCompare a b =
     ((isDirectory b \<longrightarrow> isDirectory a)
      \<and> (isDirectory a = isDirectory b \<longrightarrow> localeCompare (name a) (name b) \<le> 0))"

fun sorted_below :: "(string \<Rightarrow> string \<Rightarrow> int) \<Rightarrow> FileNode \<Rightarrow> bool" where
  "sorted_below localeCompare (FileNode n p d ch fav) =
     (case ch of
        None \<Rightarrow> True
      | Some cs \<Rightarrow> sorted_wrt (precedes localeCompare) cs \<and> list_all (sorted_below localeCompare) cs)"

definition sorted_at_every_level :: "(string \<Rightarrow> string \<Rightarrow> int) \<Rightarrow> FileNode list \<Rightarrow> bool" where
  "sorted_at_every_level localeCompare nodes =
     (sorted_wrt (precedes localeCompare) nodes \<and> list_all (sorted_below localeCompare) nodes)"

definition consistent_comparator :: "('a \<Rightarrow> 'a \<Rightarrow> int) \<Rightarrow> bool" where
  "consistent_comparator cmp =
     ((\<forall>a b. cmp a b \<le> 0 \<or> cmp b a \<le> 0)
      \<and> (\<forall>a b c. cmp a b \<le> 0 \<and> cmp b c \<le> 0 \<longrightarrow> cmp a c \<le> 0))"

text \<open>
  Modelled from the spec: \<open>String.prototype.localeCompare\<close> is not part of the repository; the
  specification describes the order it gives as case-insensitive lexical order.
\<close>

definition caseInsensitiveCompare :: "string \<Rightarrow> string \<Rightarrow> int" where
  "caseInsensitiveCompare a b =
     (if toLowerCase a < toLowerCase b then -1
      else if toLowerCase a = toLowerCase b then 0 else 1)"

definition sample_directory :: "DirEntry list" where
  "sample_directory =
     [DirEntry ''b.md'' False None,
      DirEntry ''.git'' True (Some []),
      DirEntry ''Zeta'' True (Some [DirEntry ''y.md'' False None, DirEntry ''X.md'' False None,
                                    DirEntry ''img.png'' False None]),
      DirEntry ''A.md'' False None,
      DirEntry ''alpha'' True None]"

section \<open>Tag scanner scanAllTags (src/store/noteStore.ts)\<close>

text \<open>
  \<open>tagRegex\<close> is \<open>/(?<=\s|^)#([a-zA-Z][a-zA-Z0-9_-]*)/g\<close>. The loop
  \<open>while ((match = tagRegex.exec(content)) !== null)\<close> yields the captures of the successive
  matches, each search resuming after the previous match, and ends with \<open>lastIndex\<close> back
  at 0. \<open>boundary\<close> says whether the look-behind holds at the current position: the
  position is the start of the input or follows a white space character.
\<close>

definition is_tag_start :: "char \<Rightarrow> bool" where
  \<comment> \<open>\<open>[a-zA-Z]\<close>\<close>
  "is_tag_start c = (c \<in> set (ascii_lower @ ascii_upper))"

definition is_tag_char :: "char \<Rightarrow> bool" where
  \<comment> \<open>\<open>[a-zA-Z0-9_-]\<close>\<close>
  "is_tag_char c = (c \<in> set (ascii_lower @ ascii_upper @ ascii_digit @ ''_-''))"

function tagRegex_matches :: "bool \<Rightarrow> string \<Rightarrow> string list" where
  "tagRegex_matches boundary [] = []"
| "tagRegex_matches boundary [c] = []"
| "tagRegex_matches boundary (c # d # ds) =
     (if boundary \<and> c = CHR ''#'' \<and> is_tag_start d
      then (d # takeWhile is_tag_char ds) # tagRegex_matches False (dropWhile is_tag_char ds)
      else tagRegex_matches (is_white_space c) (d # ds))"
  by pat_completeness auto
termination
  by (relation "measure (\<lambda>(boundary, s). length s)")
    (auto simp: length_dropWhile_le le_imp_less_Suc less_Suc_eq_le intro: le_trans [OF length_dropWhile_le])

text \<open>
  \<open>tagCounts\<close> is a \<open>Map\<close>: it keeps its keys in the order of their first insertion, which is
  the order \<open>Array.from(tagCounts.entries())\<close> lists them in. \<open>increment\<close> is
  \<open>tagCounts.set(tag, (tagCounts.get(tag) || 0) + 1)\<close>. \<open>readTextFile\<close> gives the body of a
  note, or \<open>None\<close> when the read rejects.
\<close>

fun increment :: "string \<Rightarrow> (string \<times> nat) list \<Rightarrow> (string \<times> nat) list" where
  "increment t [] = [(t, 1)]"
| "increment t ((k, n) # rest) = (if k = t then (k, n + 1) # rest else (k, n) # increment t rest)"

definition scan_note :: "(string \<Rightarrow> string option) \<Rightarrow> string \<Rightarrow> (string \<times> nat) list \<Rightarrow> (string \<times> nat) list" where
  "scan_note readTextFile p tagCounts =
     (if endsWith p ''.md'' then
        (case readTextFile p of
           None \<Rightarrow> tagCounts
         | Some body \<Rightarrow>
             fold (\<lambda>m counts. increment (toLowerCase m) counts) (tagRegex_matches True body) tagCounts)
      else tagCounts)"

fun scanFiles_node ::
  "(string \<Rightarrow> string option) \<Rightarrow> FileNode \<Rightarrow> (string \<times> nat) list \<Rightarrow> (string \<times> nat) list" where
  "scanFiles_node readTextFile (FileNode n p d ch fav) tagCounts =
     (case ch of
        Some cs \<Rightarrow>
          if d then fold (scanFiles_node readTextFile) cs tagCounts
          else scan_note readTextFile p tagCounts
      | None \<Rightarrow> scan_note readTextFile p tagCounts)"

definition scanFiles ::
  "(string \<Rightarrow> string option) \<Rightarrow> FileNode list \<Rightarrow> (string \<times> nat) list \<Rightarrow> (string \<times> nat) list" where
  "scanFiles readTextFile nodes tagCounts = fold (scanFiles_node readTextFile) nodes tagCounts"

definition compareTags :: "TagInfo \<Rightarrow> TagInfo \<Rightarrow> int" where
  "compareTags a b = int (count b) - int (count a)"

definition scanAllTags :: "(string \<Rightarrow> string option) \<Rightarrow> NoteState \<Rightarrow> NoteState" where
  "scanAllTags readTextFile st =
     st\<lparr>allTags :=
          array_sort compareTags
            (map (\<lambda>(t, c). \<lparr>tag = t, count = c\<rparr>) (scanFiles readTextFile (files st) []))\<rparr>"

section \<open>Backlink finder findBacklinks (src/store/noteStore.ts)\<close>

text \<open>
  The pattern is built from the source text \<open>\[\[\<close> + escaped name + \<open>\]\]\<close>.
  \<open>pattern_literal\<close> reads such a source: an escaped syntax character or an ordinary
  character stands for itself, anything else is not a literal pattern. With the flag
  \<open>i\<close> two characters match when their canonical (upper case) forms are equal. With the
  flag \<open>g\<close>, \<open>test\<close> starts at the \<open>lastIndex\<close> of the \<open>RegExp\<close> object, sets it to the end of
  the match when it finds one and to 0 when it finds none; the one \<open>searchPattern\<close> object is
  used for every line of every note, so \<open>lastIndex\<close> is threaded through the whole search.
\<close>

definition regex_syntax_chars :: string where
  "regex_syntax_chars = ''.*+?^${}()|[]'' @ [CHR 0x5C]"

definition escapeRegExp :: "string \<Rightarrow> string" where
  \<comment> \<open>\<open>.replace(/[.*+?^${}()|[\]\\]/g, '\\$&')\<close>\<close>
  "escapeRegExp s = concat (map (\<lambda>c. if c \<in> set regex_syntax_chars then [CHR 0x5C, c] else [c]) s)"

fun pattern_literal :: "string \<Rightarrow> string option" where
  "pattern_literal [] = Some []"
| "pattern_literal [c] = (if c \<in> set regex_syntax_chars then None else Some [c])"
| "pattern_literal (c # d # ds) =
     (if c = CHR 0x5C then
        (if d \<in> set regex_syntax_chars then map_option ((#) d) (pattern_literal ds) else None)
      else if c \<in> set regex_syntax_chars then None
      else map_option ((#) c) (pattern_literal (d # ds)))"

definition canonicalize :: "char \<Rightarrow> char" where
  "canonicalize c =
     (case map_of (zip (ascii_lower @ latin1_lower) (ascii_upper @ latin1_upper)) c of
        Some u \<Rightarrow> u
      | None \<Rightarrow> c)"

fun matches_at :: "string \<Rightarrow> string \<Rightarrow> bool" where
  "matches_at [] s = True"
| "matches_at (p # ps) [] = False"
| "matches_at (p # ps) (c # cs) = (canonicalize p = canonicalize c \<and> matches_at ps cs)"

fun first_match :: "string \<Rightarrow> string \<Rightarrow> nat option" where
  "first_match lit [] = (if matches_at lit [] then Some 0 else None)"
| "first_match lit (c # cs) =
     (if matches_at lit (c # cs) then Some 0 else map_option Suc (first_match lit cs))"

definition regex_test :: "string \<Rightarrow> nat \<Rightarrow> string \<Rightarrow> bool \<times> nat" where
  "regex_test lit lastIndex s =
     (if length s < lastIndex then (False, 0)
      else
        (case first_match lit (drop lastIndex s) of
           None \<Rightarrow> (False, 0)
         | Some k \<Rightarrow> (True, lastIndex + k + length lit)))"

fun first_line_tested_true :: "string \<Rightarrow> string list \<Rightarrow> nat \<Rightarrow> string option \<times> nat" where
  "first_line_tested_true lit [] lastIndex = (None, lastIndex)"
| "first_line_tested_true lit (ln # lns) lastIndex =
     (case regex_test lit lastIndex ln of
        (True, lastIndex') \<Rightarrow> (Some ln, lastIndex')
      | (False, lastIndex') \<Rightarrow> first_line_tested_true lit lns lastIndex')"

definition strip_md :: "string \<Rightarrow> string" where
  \<comment> \<open>\<open>.replace(/\.md$/, "")\<close>\<close>
  "strip_md n = (if endsWith n ''.md'' then take (length n - 3) n else n)"

definition search_note ::
  "(string \<Rightarrow> string option) \<Rightarrow> string \<Rightarrow> string \<Rightarrow> string \<Rightarrow> nat \<times> Backlink list \<Rightarrow> nat \<times> Backlink list" where
  "search_note readTextFile lit n p = (\<lambda>(lastIndex, found).
     if endsWith p ''.md'' then
       (case readTextFile p of
          None \<Rightarrow> (lastIndex, found)
        | Some body \<Rightarrow>
            (case first_line_tested_true lit (split_lines body) lastIndex of
               (None, lastIndex') \<Rightarrow> (lastIndex', found)
             | (Some ln, lastIndex') \<Rightarrow>
                 (lastIndex',
                  found @ [\<lparr>backlink_path = p, backlink_name = strip_md n,
                            backlink_context = take 100 (trim ln)\<rparr>])))
     else (lastIndex, found))"

fun searchInFiles_node ::
  "(string \<Rightarrow> string option) \<Rightarrow> string \<Rightarrow> FileNode \<Rightarrow> nat \<times> Backlink list \<Rightarrow> nat \<times> Backlink list" where
  "searchInFiles_node readTextFile lit (FileNode n p d ch fav) acc =
     (case ch of
        Some cs \<Rightarrow>
          if d then fold (searchInFiles_node readTextFile lit) cs acc
          else search_note readTextFile lit n p acc
      | None \<Rightarrow> search_note readTextFile lit n p acc)"

definition searchInFiles ::
  "(string \<Rightarrow> string option) \<Rightarrow> string \<Rightarrow> FileNode list \<Rightarrow> nat \<times> Backlink list \<Rightarrow> nat \<times> Backlink list" where
  "searchInFiles readTextFile lit nodes acc = fold (searchInFiles_node readTextFile lit) nodes acc"

definition findBacklinks :: "(string \<Rightarrow> string option) \<Rightarrow> string \<Rightarrow> NoteState \<Rightarrow> error + NoteState" where
  "findBacklinks readTextFile noteName st =
     (let escapedName = escapeRegExp noteName in
      case pattern_literal ([CHR 0x5C] @ ''['' @ [CHR 0x5C] @ ''['' @ escapedName
                             @ [CHR 0x5C] @ '']'' @ [CHR 0x5C] @ '']'') of
        None \<Rightarrow> Inl Rejected
      | Some lit \<Rightarrow>
          Inr (st\<lparr>backlinks := snd (searchInFiles readTextFile lit (files st) (0, []))\<rparr>))"

text \<open>Three notes in one folder, with two sets of bodies, for concrete runs.\<close>

definition notes_abc :: "FileNode list" where
  "notes_abc = [FileNode ''a.md'' ''/n/a.md'' False None None,
                FileNode ''b.md'' ''/n/b.md'' False None None,
                FileNode ''c.md'' ''/n/c.md'' False None None]"

definition two_links :: "string \<Rightarrow> string option" where
  "two_links = map_of [(''/n/a.md'', ''hello #work''), (''/n/b.md'', ''[[a]]''), (''/n/c.md'', ''[[a]]'')]"

definition late_link :: "string \<Rightarrow> string option" where
  "late_link = map_of [(''/n/a.md'', ''hello #work''), (''/n/b.md'', ''[[a]]''),
                       (''/n/c.md'', ''[[a]]'' @ [CHR 0x0A] @ ''see [[a]] again'')]"

section \<open>Editor auto-save (src/components/Editor/MarkdownEditor.tsx)\<close>

text \<open>The synchronous store actions the editor calls.\<close>

definition setContent :: "string \<Rightarrow> NoteState \<Rightarrow> NoteState" where
  "setContent v st = st\<lparr>content := v, isDirty := (currentNote st \<noteq> None)\<rparr>"

definition setCurrentNote :: "string option \<Rightarrow> NoteState \<Rightarrow> NoteState" where
  "setCurrentNote p st = st\<lparr>currentNote := p\<rparr>"

definition setIsDirty :: "bool \<Rightarrow> NoteState \<Rightarrow> NoteState" where
  "setIsDirty b st = st\<lparr>isDirty := b\<rparr>"

definition setIsSaving :: "bool \<Rightarrow> NoteState \<Rightarrow> NoteState" where
  "setIsSaving b st = st\<lparr>isSaving := b\<rparr>"

definition truthy :: "string option \<Rightarrow> bool" where
  \<comment> \<open>a \<open>string | null\<close> used as a condition: \<open>null\<close> and the empty string are false\<close>
  "truthy v = (case v of None \<Rightarrow> False | Some s \<Rightarrow> s \<noteq> [])"

text \<open>
  The editor component together with the store it subscribes to.
  \<^item> \<open>rendered\<close> holds \<open>currentNote\<close>, \<open>content\<close> and \<open>isDirty\<close> as of the last render. They are
    the values the flush effect captured (its dependency list is exactly these three) and
    \<open>fst (rendered e)\<close> is the \<open>currentNote\<close> that \<open>handleChange\<close> closes over (it is
    re-created whenever \<open>currentNote\<close> changes).
  \<^item> \<open>pendingSaveRef\<close> is the ref of that name.
  \<^item> \<open>scheduled\<close> is the auto-save callback waiting on its timer, if any, given by the
    \<open>currentNote\<close> it closed over; \<open>clearTimeout\<close> and the firing of the timer empty it.
  \<^item> \<open>written\<close> lists the calls \<open>writeTextFile(path, content)\<close> the editor has made.
\<close>

record Editor =
  store :: NoteState
  rendered :: "string option \<times> string \<times> bool"
  pendingSaveRef :: "(string \<times> string) option"
  scheduled :: "string option option"
  written :: "(string \<times> string) list"

definition deps :: "NoteState \<Rightarrow> string option \<times> string \<times> bool" where
  "deps st = (currentNote st, content st, isDirty st)"

definition mounted :: "NoteState \<Rightarrow> Editor" where
  "mounted st =
     \<lparr>store = st, rendered = deps st, pendingSaveRef = None, scheduled = None, written = []\<rparr>"

definition handleChange :: "string \<Rightarrow> Editor \<Rightarrow> Editor" where
  "handleChange v e =
     (let currentNote' = fst (rendered e) in
      e\<lparr>store := setContent v (store e),
        pendingSaveRef :=
          (case currentNote' of
             Some p \<Rightarrow> if p \<noteq> [] then Some (p, v) else pendingSaveRef e
           | None \<Rightarrow> pendingSaveRef e),
        scheduled := Some currentNote'\<rparr>)"

text \<open>
  The timer callback, in two parts: up to the call of \<open>writeTextFile\<close>, and what follows
  the \<open>await\<close> once the write has succeeded (\<open>ok\<close>) or failed.
\<close>

definition autoSave_fires :: "Editor \<Rightarrow> Editor" where
  "autoSave_fires e =
     (case scheduled e of
        None \<Rightarrow> e
      | Some currentNote' \<Rightarrow>
          (case pendingSaveRef e of
             Some (p, c) \<Rightarrow>
               if Some p = currentNote'
               then e\<lparr>scheduled := None, store := setIsSaving True (store e),
                      written := written e @ [(p, c)]\<rparr>
               else e\<lparr>scheduled := None\<rparr>
           | None \<Rightarrow> e\<lparr>scheduled := None\<rparr>))"

definition autoSave_settles :: "bool \<Rightarrow> Editor \<Rightarrow> Editor" where
  "autoSave_settles ok e =
     e\<lparr>store := setIsSaving False (if ok then setIsDirty False (store e) else store e)\<rparr>"

text \<open>
  The cleanup function returned by the flush effect, and the commit of a render: when one
  of the effect's dependencies differs from its value at the last render, the cleanup of
  the old effect runs and the new effect captures the current values. The store notifies
  its subscribers synchronously, so every event is followed by its commit before the next
  event is handled.
\<close>

definition effect_cleanup :: "Editor \<Rightarrow> Editor" where
  "effect_cleanup e =
     (case rendered e of
        (capturedPath, capturedContent, capturedIsDirty) \<Rightarrow>
          (case capturedPath of
             Some p \<Rightarrow>
               if capturedIsDirty \<and> p \<noteq> []
               then e\<lparr>scheduled := None, written := written e @ [(p, capturedContent)]\<rparr>
               else e\<lparr>scheduled := None\<rparr>
           | None \<Rightarrow> e\<lparr>scheduled := None\<rparr>))"

definition commit :: "Editor \<Rightarrow> Editor" where
  "commit e =
     (if deps (store e) = rendered e then e
      else (effect_cleanup e)\<lparr>rendered := deps (store e)\<rparr>)"

text \<open>
  What can happen to a mounted editor: the user changes the text, the auto-save timer
  elapses, an auto-save write settles, or some store action runs (the final \<open>set\<close> of
  \<open>loadNote\<close>, \<open>setCurrentNote\<close>, ...).
\<close>

datatype event =
  Change string
| TimerFires
| SaveSettles bool
| StoreAction "NoteState \<Rightarrow> NoteState"

fun step :: "event \<Rightarrow> Editor \<Rightarrow> Editor" where
  "step (Change v) e = commit (handleChange v e)"
| "step TimerFires e = commit (autoSave_fires e)"
| "step (SaveSettles ok) e = commit (autoSave_settles ok e)"
| "step (StoreAction f) e = commit (e\<lparr>store := f (store e)\<rparr>)"

text \<open>
  The states between events: the last render shows the store, a pending save never has an
  empty path, and a callback waiting on the timer closed over the note that is open and,
  when that note has a non-empty path, the pending save is that note with the content in
  the store.
\<close>

definition well_rendered :: "Editor \<Rightarrow> bool" where
  "well_rendered e =
     (rendered e = deps (store e)
      \<and> (case pendingSaveRef e of None \<Rightarrow> True | Some (p, c) \<Rightarrow> p \<noteq> [])
      \<and> (case scheduled e of
           None \<Rightarrow> True
         | Some cn \<Rightarrow>
             cn = currentNote (store e)
             \<and> (case cn of
                  Some p \<Rightarrow> p = [] \<or> pendingSaveRef e = Some (p, content (store e))
                | None \<Rightarrow> True)))"

text \<open>
  Concrete runs: \<open>/n/a.md\<close> open and unedited; \<open>loadNote("/n/b.md")\<close> as a store action; and a
  state in which the timer waits while the pending save belongs to a note no longer open.
\<close>

definition editing_a :: Editor where
  "editing_a = mounted (initialState\<lparr>currentNote := Some ''/n/a.md'', content := ''old''\<rparr>)"

definition open_note_b :: "NoteState \<Rightarrow> NoteState" where
  "open_note_b st =
     fst (loadNote (read_from [(''/n/b.md'', ''body of b'')]) recording_api ''/n/b.md'' (st, (), []))"

definition stale_pending :: Editor where
  "stale_pending =
     fold step [Change ''new'', StoreAction (setCurrentNote None), Change ''x'', Change ''x''] editing_a"

section \<open>Path Guard: results\<close>

lemma remove_dotdot_no_separator:
  "\<forall>c \<in> set s. \<not> is_separator c \<Longrightarrow> \<forall>c \<in> set (remove_dotdot s). \<not> is_separator c"
  by (induction s rule: remove_dotdot.induct) auto

lemma set_trim_subset: "set (trim s) \<subseteq> set s"
proof -
  have "set (trim s) = set (dropWhile is_white_space (rev (dropWhile is_white_space s)))"
    by (simp add: trim_def)
  also have "\<dots> \<subseteq> set (rev (dropWhile is_white_space s))"
    by (rule set_dropWhileD [THEN subsetI])
  also have "\<dots> \<subseteq> set s"
    using set_dropWhileD by fastforce
  finally show ?thesis .
qed

lemma sanitizeFileName_no_separator:
  "CHR ''/'' \<notin> set (sanitizeFileName s) \<and> CHR 0x5C \<notin> set (sanitizeFileName s)"
proof -
  have "set (sanitizeFileName s) \<subseteq> {c. \<not> is_separator c}"
    unfolding sanitizeFileName_def using set_trim_subset by fastforce
  then show ?thesis
    by (auto simp: is_separator_def)
qed

text \<open>
  C2. \<open>sanitizeFileName\<close> is claimed never to return a string containing \<open>..\<close>, \<open>/\<close> or
  \<open>\\<close>. The separators are indeed always removed (lemma \<open>sanitizeFileName_no_separator\<close>),
  but the \<open>..\<close> sequences are removed in a single pass that runs before the other two
  replacements, so two dots that become adjacent when a separator or a reserved character
  between them is removed survive: \<open>sanitizeFileName("./.")\<close> is \<open>".."\<close>.
\<close>

theorem sanitizeFileName_returns_dotdot:
  "sanitizeFileName ''./.'' = ''..'' \<and> includes_str (sanitizeFileName ''./.'') ''..''"
  by (simp add: sanitizeFileName_def trim_def is_separator_def is_reserved_def
      is_white_space_def startsWith_def)

section \<open>moveItem: results\<close>

text \<open>
  C3. When the target folder is the source itself or lies below it (it starts with the
  source path followed by \<open>/\<close>), \<open>moveItem\<close> returns null and the storage is not touched:
  whatever the primitives \<open>exists\<close> and \<open>rename\<close> do, the storage state comes back as it
  was, so neither of them has been called.
\<close>

theorem moveItem_into_itself_or_descendant:
  "targetFolder = sourcePath \<or> startsWith targetFolder (sourcePath @ ''/'') \<Longrightarrow>
   moveItem fs_exists fs_rename sourcePath targetFolder s = (None, s)"
  by (simp add: moveItem_def Let_def)

theorem moveItem_into_itself_or_descendant_witness:
  "startsWith ''/notes/a/b'' (''/notes/a'' @ ''/'')
   \<and> moveItem traced_exists traced_rename ''/notes/a'' ''/notes/a/b'' [] = (None, [])
   \<and> moveItem traced_exists traced_rename ''/notes/a'' ''/notes/a'' [] = (None, [])"
  using moveItem_into_itself_or_descendant
    [of "''/notes/a/b''" "''/notes/a''" traced_exists traced_rename "[]"]
    moveItem_into_itself_or_descendant
    [of "''/notes/a''" "''/notes/a''" traced_exists traced_rename "[]"]
  by (simp add: startsWith_def)

lemma moveItem_elsewhere_calls_storage:
  "moveItem traced_exists traced_rename ''/notes/a.md'' ''/notes/d'' []
   = (Some ''/notes/d/a.md'', [Exists ''/notes/d/a.md'', Rename ''/notes/a.md'' ''/notes/d/a.md''])"
  by (simp add: moveItem_def Let_def substring_from_def isValidName_def trim_def
      is_white_space_def startsWith_def is_reserved_def traced_exists_def traced_rename_def)

section \<open>Heading extractor: results\<close>

lemma dropWhile_drop_within_run:
  "j \<le> length (takeWhile P xs) \<Longrightarrow> dropWhile P (drop j xs) = dropWhile P xs"
proof (induction xs arbitrary: j)
  case Nil
  then show ?case by simp
next
  case (Cons x xs)
  then show ?case by (cases j) (auto split: if_splits)
qed

lemma trim_drop_within_run:
  "j \<le> length (takeWhile is_white_space s) \<Longrightarrow> trim (drop j s) = trim s"
  by (simp add: trim_def dropWhile_drop_within_run)

lemma hash_not_white_space: "\<not> is_white_space CHR ''#''"
  by (simp add: is_white_space_def)

lemma headingRegex_candidates:
  assumes "1 \<le> k" "k \<le> min 6 (length (takeWhile (\<lambda>c. c = CHR ''#'') ln))"
    and "1 \<le> j" "j \<le> length (takeWhile is_white_space (drop k ln))"
  shows "k = length (takeWhile (\<lambda>c. c = CHR ''#'') ln)"
proof (rule ccontr)
  let ?n = "length (takeWhile (\<lambda>c. c = CHR ''#'') ln)"
  assume "k \<noteq> ?n"
  with assms have lt: "k < ?n" by simp
  then have "ln ! k = CHR ''#''"
    using takeWhile_nth [of k "\<lambda>c. c = CHR ''#''" ln] nth_mem [of k "takeWhile (\<lambda>c. c = CHR ''#'') ln"]
    by (metis (mono_tags, lifting) set_takeWhileD)
  moreover have "k < length ln"
    using lt length_takeWhile_le [of "\<lambda>c. c = CHR ''#''" ln] by simp
  ultimately have "hd (drop k ln) = CHR ''#''"
    by (simp add: hd_drop_conv_nth)
  moreover from assms have "takeWhile is_white_space (drop k ln) \<noteq> []"
    by auto
  then have "is_white_space (hd (drop k ln))"
    by (metis hd_append2 list.set_sel(1) set_takeWhileD takeWhile_dropWhile_id)
  ultimately show False
    using hash_not_white_space by simp
qed

lemma nested_candidates_iff:
  "(k, j) \<in> set [(k, j). k \<leftarrow> ks, j \<leftarrow> f k, P k j] \<longleftrightarrow> k \<in> set ks \<and> j \<in> set (f k) \<and> P k j"
  by auto

lemma headingRegex_attempts_iff:
  "(k, j) \<in> set (headingRegex_attempts ln) \<longleftrightarrow>
      1 \<le> k \<and> k \<le> 6 \<and> k \<le> length (takeWhile (\<lambda>c. c = CHR ''#'') ln)
      \<and> 1 \<le> j \<and> j \<le> length (takeWhile is_white_space (drop k ln))
      \<and> dot_plus_to_end (drop (k + j) ln)"
  unfolding headingRegex_attempts_def Let_def nested_candidates_iff
  by (auto simp del: upt_Suc simp: less_Suc_eq_le)

lemma headingRegex_exec_Some:
  assumes "headingRegex_exec ln = Some (m1, m2)"
  shows "m1 = takeWhile (\<lambda>c. c = CHR ''#'') ln
         \<and> trim m2 = trim (dropWhile (\<lambda>c. c = CHR ''#'') ln)"
proof -
  let ?n = "length (takeWhile (\<lambda>c. c = CHR ''#'') ln)"
  from assms obtain k j rest where c: "headingRegex_attempts ln = (k, j) # rest"
    and m: "m1 = take k ln" "m2 = drop (k + j) ln"
    by (auto simp: headingRegex_exec_def split: list.splits)
  have "(k, j) \<in> set (headingRegex_attempts ln)"
    unfolding c by simp
  then have r: "1 \<le> k" "k \<le> min 6 ?n" "1 \<le> j" "j \<le> length (takeWhile is_white_space (drop k ln))"
    unfolding headingRegex_attempts_iff by simp_all
  then have k: "k = ?n"
    by (rule headingRegex_candidates)
  have d: "drop ?n ln = dropWhile (\<lambda>c. c = CHR ''#'') ln"
    by (simp add: dropWhile_eq_drop)
  have m1: "m1 = takeWhile (\<lambda>c. c = CHR ''#'') ln"
    unfolding m(1) k by (rule takeWhile_eq_take [symmetric])
  have t: "trim (drop j (drop k ln)) = trim (drop k ln)"
    using r(4) by (rule trim_drop_within_run)
  have "m2 = drop j (drop k ln)"
    unfolding m(2) by (simp only: drop_drop add.commute [of j k])
  then have "trim m2 = trim (drop k ln)"
    using t by (simp only:)
  then have m2: "trim m2 = trim (dropWhile (\<lambda>c. c = CHR ''#'') ln)"
    unfolding k d .
  from m1 m2 show ?thesis
    by (rule conjI)
qed

lemma take_within_run:
  assumes "k \<le> length (takeWhile P xs)"
  shows "length (take k xs) = k \<and> (\<forall>x \<in> set (take k xs). P x)"
proof -
  have "take k xs = take k (takeWhile P xs @ dropWhile P xs)"
    by simp
  also have "\<dots> = take k (takeWhile P xs)"
    using assms by (simp del: takeWhile_dropWhile_id)
  finally have e: "take k xs = take k (takeWhile P xs)" .
  have "set (take k (takeWhile P xs)) \<subseteq> set (takeWhile P xs)"
    by (rule set_take_subset)
  then have "\<forall>x \<in> set (take k xs). P x"
    unfolding e using set_takeWhileD by fastforce
  moreover have "length (take k xs) = k"
    unfolding e using assms by simp
  ultimately show ?thesis by simp
qed

lemma takeWhile_run_append:
  "list_all P ws \<Longrightarrow> length ws \<le> length (takeWhile P (ws @ t))"
  by (induction ws) auto

lemma headingRegex_exec_None_iff:
  "headingRegex_exec ln = None \<longleftrightarrow> \<not> matches_headingRegex ln"
proof -
  let ?n = "length (takeWhile (\<lambda>c. c = CHR ''#'') ln)"
  let ?cands = "headingRegex_attempts ln"
  note in_cands = headingRegex_attempts_iff
  have none: "headingRegex_exec ln = None \<longleftrightarrow> \<not> (\<exists>k j. (k, j) \<in> set ?cands)"
    by (cases "headingRegex_attempts ln") (auto simp: headingRegex_exec_def)
  have "matches_headingRegex ln \<longleftrightarrow> (\<exists>k j. (k, j) \<in> set ?cands)"
  proof
    assume "matches_headingRegex ln"
    then obtain k ws t where d: "ln = replicate k CHR ''#'' @ ws @ t" "1 \<le> k" "k \<le> 6"
      "ws \<noteq> []" "list_all is_white_space ws" "t \<noteq> []" "list_all (\<lambda>c. \<not> is_line_terminator c) t"
      unfolding matches_headingRegex_def by blast
    have "list_all (\<lambda>c. c = CHR ''#'') (replicate k CHR ''#'')"
      by (simp add: list_all_iff)
    then have "length (replicate k CHR ''#'') \<le> ?n"
      unfolding d(1) by (rule takeWhile_run_append)
    then have kn: "k \<le> ?n" by simp
    have dk: "drop k ln = ws @ t"
      unfolding d(1) by simp
    have j: "length ws \<le> length (takeWhile is_white_space (drop k ln))"
      unfolding dk using d(5) by (rule takeWhile_run_append)
    have "drop (k + length ws) ln = t"
      unfolding d(1) by simp
    then have "dot_plus_to_end (drop (k + length ws) ln)"
      using d(6,7) by (simp add: dot_plus_to_end_def list_all_iff)
    moreover have "1 \<le> length ws"
      using d(4) by (cases ws) simp_all
    ultimately have "(k, length ws) \<in> set ?cands"
      unfolding in_cands using d(2,3) kn j by simp
    then show "\<exists>k j. (k, j) \<in> set ?cands" by blast
  next
    assume "\<exists>k j. (k, j) \<in> set ?cands"
    then obtain k j where c: "1 \<le> k" "k \<le> 6" "k \<le> ?n" "1 \<le> j"
      "j \<le> length (takeWhile is_white_space (drop k ln))" "dot_plus_to_end (drop (k + j) ln)"
      unfolding in_cands by blast
    have h: "take k ln = replicate k CHR ''#''"
      using take_within_run [OF c(3)] by (intro replicate_eqI) auto
    have w: "length (take j (drop k ln)) = j \<and> (\<forall>x \<in> set (take j (drop k ln)). is_white_space x)"
      using c(5) by (rule take_within_run)
    have "ln = take k ln @ take j (drop k ln) @ drop j (drop k ln)"
      by (simp only: append_take_drop_id)
    then have "ln = replicate k CHR ''#'' @ take j (drop k ln) @ drop (k + j) ln"
      unfolding h by (simp only: drop_drop add.commute [of j k])
    moreover have "take j (drop k ln) \<noteq> []"
      using w c(4) by auto
    moreover have "list_all is_white_space (take j (drop k ln))"
      using w by (simp add: list_all_iff)
    moreover have "drop (k + j) ln \<noteq> [] \<and> list_all (\<lambda>c. \<not> is_line_terminator c) (drop (k + j) ln)"
      using c(6) by (simp add: dot_plus_to_end_def list_all_iff)
    ultimately show "matches_headingRegex ln"
      unfolding matches_headingRegex_def using c(1,2) by blast
  qed
  then show ?thesis
    unfolding none by auto
qed

lemma collect_headings_eq:
  "collect_headings lns index headings =
     headings @ map (\<lambda>(i, ln). heading_of_line i ln)
       (filter (\<lambda>(i, ln). matches_headingRegex ln) (zip [index..<index + length lns] lns))"
proof (induction lns arbitrary: index headings)
  case Nil
  then show ?case by simp
next
  case (Cons ln lns)
  have u: "[index..<index + length (ln # lns)] = index # [Suc index..<Suc index + length lns]"
    by (simp add: upt_conv_Cons del: upt_Suc)
  show ?case
  proof (cases "headingRegex_exec ln")
    case None
    then have "\<not> matches_headingRegex ln"
      by (simp add: headingRegex_exec_None_iff)
    then show ?thesis
      unfolding u using None Cons.IH [of "Suc index" headings] by simp
  next
    case (Some m)
    obtain m1 m2 where m: "m = (m1, m2)" by (cases m)
    have "matches_headingRegex ln"
      using Some headingRegex_exec_None_iff [of ln] by auto
    moreover have "m1 = takeWhile (\<lambda>c. c = CHR ''#'') ln
         \<and> trim m2 = trim (dropWhile (\<lambda>c. c = CHR ''#'') ln)"
      using Some m headingRegex_exec_Some by simp
    ultimately show ?thesis
      unfolding u using Some m Cons.IH [of "Suc index"]
      by (simp add: heading_of_line_def Let_def)
  qed
qed

text \<open>
  C5, as claimed. The identifier is claimed to be the lowercased heading text with every
  character that is neither a word character nor white space removed. The code's class
  is \<open>[^\w\s-]\<close>: a hyphen is kept. For the content \<open># a-b\<close> the extractor returns the
  identifier \<open>a-b\<close>, the claimed slug is \<open>ab\<close>.
\<close>

theorem useMarkdownHeadings_keeps_hyphen:
  "map heading_id (useMarkdownHeadings ''# a-b'') = [''a-b'']
   \<and> map (\<lambda>h. claimed_heading_slug (heading_text h)) (useMarkdownHeadings ''# a-b'') = [''ab'']"
  by code_simp

text \<open>
  C5, amended. For every content, the extractor returns exactly one entry for each line of
  \<open>content.split("\n")\<close> that is in the language of \<open>^#{1,6}\s+(.+)$\<close>, in line order. The
  entry of line \<open>i\<close> (from 0) has line number \<open>i + 1\<close>, its level is the number of leading
  \<open>#\<close>, its text is the rest of the line trimmed, and its identifier is the lowercased
  text with every character other than word characters, white space and the hyphen
  removed and each run of white space replaced by one hyphen (\<open>heading_slug\<close>). The result
  is a function of the content alone.
\<close>

theorem useMarkdownHeadings_entries:
  "useMarkdownHeadings doc =
     map (\<lambda>(i, ln). heading_of_line i ln)
       (filter (\<lambda>(i, ln). matches_headingRegex ln)
          (zip [0..<length (split_lines doc)] (split_lines doc)))"
  by (simp add: useMarkdownHeadings_def collect_headings_eq)

section \<open>loadNote: results\<close>

lemma recents_update_properties:
  fixes p :: string
  defines "updated \<equiv> \<lambda>recent. take 10 (p # filter (\<lambda>q. q \<noteq> p) recent)"
  shows "updated recent \<noteq> [] \<and> hd (updated recent) = p \<and> length (updated recent) \<le> 10
         \<and> count_list (updated recent) p = 1
         \<and> (distinct recent \<longrightarrow> distinct (updated recent))"
proof -
  let ?t = "take 9 (filter (\<lambda>q. q \<noteq> p) recent)"
  have u: "updated recent = p # ?t"
    unfolding updated_def by (simp add: numeral_eq_Suc)
  have n: "p \<notin> set ?t"
    using in_set_takeD by fastforce
  then have c: "count_list ?t p = 0"
    by (simp add: count_list_0_iff)
  have d: "distinct recent \<longrightarrow> distinct ?t"
    by simp
  have l: "length ?t \<le> 9"
    by simp
  show ?thesis
    unfolding u using n c d l by simp
qed

lemma loadNote_succeeds:
  assumes "readTextFile p f = (Inr body, f1)"
    and "persist api ''recentNotes'' (take 10 (p # filter (\<lambda>q. q \<noteq> p) (recentNotes st))) m
         = (Inr (), m1)"
  shows "loadNote readTextFile api p (st, f, m) =
           (st\<lparr>currentNote := Some p, content := body, isDirty := False, isLoading := False,
               recentNotes := take 10 (p # filter (\<lambda>q. q \<noteq> p) (recentNotes st))\<rparr>, f1, m1)"
  using assms by (simp add: loadNote_def Let_def)

text \<open>
  C8, as claimed: for every prior recents list the new list is claimed to have no
  duplicates. \<open>loadNote\<close> removes only the occurrences of the loaded path, so duplicates of
  other paths in the prior list stay: after a successful load of \<open>/n/a.md\<close> with the prior
  list \<open>[/n/b.md, /n/b.md]\<close> the list is \<open>[/n/a.md, /n/b.md, /n/b.md]\<close>.
\<close>

theorem loadNote_keeps_prior_duplicates:
  "currentNote (fst (loadNote (read_from [(''/n/a.md'', ''hello'')]) recording_api ''/n/a.md''
      (initialState\<lparr>recentNotes := [''/n/b.md'', ''/n/b.md'']\<rparr>, (), []))) = Some ''/n/a.md''
   \<and> recentNotes (fst (loadNote (read_from [(''/n/a.md'', ''hello'')]) recording_api ''/n/a.md''
      (initialState\<lparr>recentNotes := [''/n/b.md'', ''/n/b.md'']\<rparr>, (), [])))
     = [''/n/a.md'', ''/n/b.md'', ''/n/b.md'']
   \<and> \<not> distinct (recentNotes (fst (loadNote (read_from [(''/n/a.md'', ''hello'')]) recording_api
      ''/n/a.md'' (initialState\<lparr>recentNotes := [''/n/b.md'', ''/n/b.md'']\<rparr>, (), []))))"
  by code_simp

text \<open>
  C8, amended. When \<open>loadNote(path)\<close> succeeds (the file is read and the recents list is
  persisted), the recents list afterwards starts with \<open>path\<close>, contains \<open>path\<close> exactly
  once, has at most 10 entries, and has no duplicates whenever the prior list had none.
\<close>

theorem loadNote_recents:
  assumes "readTextFile p f = (Inr body, f1)"
    and "persist api ''recentNotes'' (take 10 (p # filter (\<lambda>q. q \<noteq> p) (recentNotes st))) m
         = (Inr (), m1)"
  shows "recentNotes (fst (loadNote readTextFile api p (st, f, m))) \<noteq> []
         \<and> hd (recentNotes (fst (loadNote readTextFile api p (st, f, m)))) = p
         \<and> length (recentNotes (fst (loadNote readTextFile api p (st, f, m)))) \<le> 10
         \<and> count_list (recentNotes (fst (loadNote readTextFile api p (st, f, m)))) p = 1
         \<and> (distinct (recentNotes st) \<longrightarrow>
              distinct (recentNotes (fst (loadNote readTextFile api p (st, f, m)))))"
  using recents_update_properties [of p "recentNotes st"]
  by (simp add: loadNote_succeeds [where readTextFile = readTextFile, OF assms])

theorem loadNote_recents_witness:
  "recentNotes (fst (loadNote (read_from [(''/n/a.md'', ''hello'')]) recording_api ''/n/a.md''
      (initialState\<lparr>recentNotes := [''/n/b.md'', ''/n/a.md'']\<rparr>, (), []))) \<noteq> []
   \<and> hd (recentNotes (fst (loadNote (read_from [(''/n/a.md'', ''hello'')]) recording_api ''/n/a.md''
      (initialState\<lparr>recentNotes := [''/n/b.md'', ''/n/a.md'']\<rparr>, (), [])))) = ''/n/a.md''
   \<and> length (recentNotes (fst (loadNote (read_from [(''/n/a.md'', ''hello'')]) recording_api
      ''/n/a.md'' (initialState\<lparr>recentNotes := [''/n/b.md'', ''/n/a.md'']\<rparr>, (), [])))) \<le> 10
   \<and> count_list (recentNotes (fst (loadNote (read_from [(''/n/a.md'', ''hello'')]) recording_api
      ''/n/a.md'' (initialState\<lparr>recentNotes := [''/n/b.md'', ''/n/a.md'']\<rparr>, (), []))))
      ''/n/a.md'' = 1
   \<and> distinct (recentNotes (fst (loadNote (read_from [(''/n/a.md'', ''hello'')]) recording_api
      ''/n/a.md'' (initialState\<lparr>recentNotes := [''/n/b.md'', ''/n/a.md'']\<rparr>, (), []))))"
proof -
  let ?st = "initialState\<lparr>recentNotes := [''/n/b.md'', ''/n/a.md'']\<rparr>"
  have r: "read_from [(''/n/a.md'', ''hello'')] ''/n/a.md'' () = (Inr ''hello'', ())"
    by code_simp
  have w: "persist recording_api ''recentNotes''
             (take 10 (''/n/a.md'' # filter (\<lambda>q. q \<noteq> ''/n/a.md'') (recentNotes ?st))) []
           = (Inr (), [(''recentNotes'', [''/n/a.md'', ''/n/b.md''])])"
    by code_simp
  have d: "distinct (recentNotes ?st)"
    by code_simp
  show ?thesis
    using loadNote_recents
      [where readTextFile = "read_from [(''/n/a.md'', ''hello'')]" and p = "''/n/a.md''" and f = "()",
        OF r w] d
    by simp
qed

text \<open>
  C10. If reading the file fails, \<open>loadNote(path)\<close> ends in the state it started from with
  \<open>isLoading\<close> false: \<open>currentNote\<close>, \<open>content\<close>, \<open>isDirty\<close>, the recents list and every other
  field are as before, and the metadata store is untouched, so nothing has been persisted.
\<close>

theorem loadNote_read_fails:
  "readTextFile p f = (Inl e, f1) \<Longrightarrow>
   loadNote readTextFile api p (st, f, m) = (st\<lparr>isLoading := False\<rparr>, f1, m)"
  by (simp add: loadNote_def)

theorem loadNote_read_fails_witness:
  "loadNote (read_from []) recording_api ''/n/gone.md''
     (initialState\<lparr>currentNote := Some ''/n/a.md'', content := ''draft'', isDirty := True,
                   recentNotes := [''/n/a.md'']\<rparr>, (), [])
   = (initialState\<lparr>currentNote := Some ''/n/a.md'', content := ''draft'', isDirty := True,
                    recentNotes := [''/n/a.md''], isLoading := False\<rparr>, (), [])"
proof -
  have r: "read_from [] ''/n/gone.md'' () = (Inl Rejected, ())"
    by code_simp
  show ?thesis
    by (rule loadNote_read_fails
      [where readTextFile = "read_from []" and p = "''/n/gone.md''" and f = "()", OF r])
qed

section \<open>toggleFavorite: results\<close>

lemma updateFavorites_node_marks:
  "\<forall>n \<in> set (all_nodes (updateFavorites_node updated x)). isFavorite n = Some (path n \<in> set updated)"
proof (induction x)
  case (FileNode n p d ch fav)
  show ?case
  proof (cases ch)
    case None
    then show ?thesis by simp
  next
    case (Some cs)
    have "\<forall>c \<in> set cs. \<forall>n \<in> set (all_nodes (updateFavorites_node updated c)).
            isFavorite n = Some (path n \<in> set updated)"
      using FileNode.IH Some by auto
    then show ?thesis
      using Some by auto
  qed
qed

lemma erase_favorite_updateFavorites_node:
  "erase_favorite (updateFavorites_node updated x) = erase_favorite x"
proof (induction x)
  case (FileNode n p d ch fav)
  show ?case
  proof (cases ch)
    case None
    then show ?thesis by simp
  next
    case (Some cs)
    have "\<forall>c \<in> set cs. erase_favorite (updateFavorites_node updated c) = erase_favorite c"
      using FileNode.IH Some by auto
    then show ?thesis
      using Some by simp
  qed
qed

lemma updateFavorites_marks:
  "\<forall>n \<in> set (concat (map all_nodes (updateFavorites updated nodes))).
     isFavorite n = Some (path n \<in> set updated)"
  using updateFavorites_node_marks by (auto simp: updateFavorites_def)

lemma updateFavorites_shape:
  "map erase_favorite (updateFavorites updated nodes) = map erase_favorite nodes"
  by (simp add: updateFavorites_def erase_favorite_updateFavorites_node)

lemma toggled_membership:
  fixes p :: string
  defines "updated \<equiv> \<lambda>favs. if p \<in> set favs then filter (\<lambda>q. q \<noteq> p) favs else favs @ [p]"
  shows "(p \<in> set (updated favs) \<longleftrightarrow> p \<notin> set favs)
         \<and> (\<forall>q. q \<noteq> p \<longrightarrow> (q \<in> set (updated favs) \<longleftrightarrow> q \<in> set favs))"
  unfolding updated_def by auto

text \<open>
  C9. When the new favourites list is persisted, \<open>toggleFavorite(path)\<close> resolves; it changes
  only \<open>favorites\<close> and \<open>files\<close>; \<open>path\<close> is in the new favourites exactly when it was not in
  the old ones, and the membership of every other path is unchanged; every node of the new
  tree, at any depth, has \<open>isFavorite\<close> set to whether its path is in the new favourites;
  and apart from the \<open>isFavorite\<close> marks the new tree is the old one (same names, paths,
  \<open>isDirectory\<close> flags, shape and order). The new tree is computed from the old tree alone:
  no directory is read.
\<close>

theorem toggleFavorite_flips_and_remarks:
  assumes "persist api ''favorites''
             (if p \<in> set (favorites st) then filter (\<lambda>q. q \<noteq> p) (favorites st)
              else favorites st @ [p]) m = (Inr (), m1)"
  shows "\<exists>st'. toggleFavorite api p (st, m) = (Inr (), st', m1)
           \<and> st' = st\<lparr>favorites := favorites st', files := files st'\<rparr>
           \<and> (p \<in> set (favorites st') \<longleftrightarrow> p \<notin> set (favorites st))
           \<and> (\<forall>q. q \<noteq> p \<longrightarrow> (q \<in> set (favorites st') \<longleftrightarrow> q \<in> set (favorites st)))
           \<and> (\<forall>n \<in> set (concat (map all_nodes (files st'))).
                 isFavorite n = Some (path n \<in> set (favorites st')))
           \<and> map erase_favorite (files st') = map erase_favorite (files st)"
proof -
  let ?upd = "if p \<in> set (favorites st) then filter (\<lambda>q. q \<noteq> p) (favorites st)
              else favorites st @ [p]"
  let ?st' = "st\<lparr>favorites := ?upd, files := updateFavorites ?upd (files st)\<rparr>"
  have run: "toggleFavorite api p (st, m) = (Inr (), ?st', m1)"
    using assms by (simp add: toggleFavorite_def Let_def)
  have frame: "?st' = st\<lparr>favorites := favorites ?st', files := files ?st'\<rparr>"
    by simp
  have flip: "(p \<in> set (favorites ?st') \<longleftrightarrow> p \<notin> set (favorites st))
      \<and> (\<forall>q. q \<noteq> p \<longrightarrow> (q \<in> set (favorites ?st') \<longleftrightarrow> q \<in> set (favorites st)))"
    using toggled_membership [of p "favorites st"] by simp
  have marks: "\<forall>n \<in> set (concat (map all_nodes (files ?st'))).
                 isFavorite n = Some (path n \<in> set (favorites ?st'))"
    using updateFavorites_marks [of ?upd "files st"] by simp
  have shape: "map erase_favorite (files ?st') = map erase_favorite (files st)"
    using updateFavorites_shape [of ?upd "files st"] by simp
  show ?thesis
    using run frame flip marks shape by blast
qed

lemma toggleFavorite_rejected:
  "persist api ''favorites''
     (if p \<in> set (favorites st) then filter (\<lambda>q. q \<noteq> p) (favorites st)
      else favorites st @ [p]) m = (Inl e, m1) \<Longrightarrow>
   toggleFavorite api p (st, m) = (Inl e, st, m1)"
  by (simp add: toggleFavorite_def Let_def)

theorem toggleFavorite_flips_and_remarks_witness:
  "\<exists>st'. toggleFavorite recording_api ''/n/d/a.md''
            (initialState\<lparr>files := sample_tree, favorites := [''/n/d'']\<rparr>, [])
          = (Inr (), st', [(''favorites'', [''/n/d'', ''/n/d/a.md''])])
     \<and> st' = initialState\<lparr>files := sample_tree, favorites := [''/n/d'']\<rparr>
                 \<lparr>favorites := favorites st', files := files st'\<rparr>
     \<and> (''/n/d/a.md'' \<in> set (favorites st') \<longleftrightarrow>
          ''/n/d/a.md'' \<notin> set (favorites (initialState\<lparr>files := sample_tree, favorites := [''/n/d'']\<rparr>)))
     \<and> (\<forall>q. q \<noteq> ''/n/d/a.md'' \<longrightarrow>
          (q \<in> set (favorites st') \<longleftrightarrow>
           q \<in> set (favorites (initialState\<lparr>files := sample_tree, favorites := [''/n/d'']\<rparr>))))
     \<and> (\<forall>n \<in> set (concat (map all_nodes (files st'))).
           isFavorite n = Some (path n \<in> set (favorites st')))
     \<and> map erase_favorite (files st')
         = map erase_favorite (files (initialState\<lparr>files := sample_tree, favorites := [''/n/d'']\<rparr>))"
proof -
  let ?st = "initialState\<lparr>files := sample_tree, favorites := [''/n/d'']\<rparr>"
  have w: "persist recording_api ''favorites''
             (if ''/n/d/a.md'' \<in> set (favorites ?st)
              then filter (\<lambda>q. q \<noteq> ''/n/d/a.md'') (favorites ?st)
              else favorites ?st @ [''/n/d/a.md'']) []
           = (Inr (), [(''favorites'', [''/n/d'', ''/n/d/a.md''])])"
    by code_simp
  show ?thesis
    by (rule toggleFavorite_flips_and_remarks [OF w])
qed

lemma toggleFavorite_example:
  "toggleFavorite recording_api ''/n/d/a.md''
      (initialState\<lparr>files := sample_tree, favorites := [''/n/d'']\<rparr>, [])
   = (Inr (),
      initialState\<lparr>files := sample_tree, favorites := [''/n/d'']\<rparr>
        \<lparr>favorites := [''/n/d'', ''/n/d/a.md''],
         files := [FileNode ''d'' ''/n/d'' True
                     (Some [FileNode ''a.md'' ''/n/d/a.md'' False None (Some True)]) (Some True),
                   FileNode ''b.md'' ''/n/b.md'' False None (Some False)]\<rparr>,
      [(''favorites'', [''/n/d'', ''/n/d/a.md''])])"
  by code_simp

section \<open>Tree builder: results\<close>

lemma set_insert_by: "set (insert_by cmp x xs) = insert x (set xs)"
  by (induction xs) auto

lemma set_array_sort: "set (array_sort cmp xs) = set xs"
  by (induction xs) (auto simp: array_sort_def set_insert_by)

lemma sorted_insert_by:
  assumes "consistent_comparator cmp" "sorted_wrt (\<lambda>a b. cmp a b \<le> 0) xs"
  shows "sorted_wrt (\<lambda>a b. cmp a b \<le> 0) (insert_by cmp x xs)"
  using assms(2)
proof (induction xs)
  case Nil
  then show ?case by simp
next
  case (Cons y ys)
  have total: "\<And>a b. cmp a b \<le> 0 \<or> cmp b a \<le> 0"
    and trans: "\<And>a b c. cmp a b \<le> 0 \<Longrightarrow> cmp b c \<le> 0 \<Longrightarrow> cmp a c \<le> 0"
    using assms(1) unfolding consistent_comparator_def by blast+
  show ?case
  proof (cases "cmp x y \<le> 0")
    case True
    then have "\<forall>z \<in> set ys. cmp x z \<le> 0"
      using Cons.prems trans by auto
    then show ?thesis
      using True Cons.prems by simp
  next
    case False
    then have "cmp y x \<le> 0"
      using total [of x y] by simp
    then show ?thesis
      using False Cons by (auto simp: set_insert_by)
  qed
qed

lemma sorted_array_sort:
  "consistent_comparator cmp \<Longrightarrow> sorted_wrt (\<lambda>a b. cmp a b \<le> 0) (array_sort cmp xs)"
proof (induction xs)
  case Nil
  then show ?case by (simp add: array_sort_def)
next
  case (Cons x xs)
  then have "sorted_wrt (\<lambda>a b. cmp a b \<le> 0) (insert_by cmp x (array_sort cmp xs))"
    by (intro sorted_insert_by) simp_all
  then show ?case by (simp add: array_sort_def)
qed

lemma compareNodes_le_iff:
  "compareNodes lc a b \<le> 0 \<longleftrightarrow>
     (isDirectory a \<and> \<not> isDirectory b) \<or> (isDirectory a = isDirectory b \<and> lc (name a) (name b) \<le> 0)"
  by (auto simp: compareNodes_def)

lemma consistent_compareNodes:
  assumes "consistent_comparator lc"
  shows "consistent_comparator (compareNodes lc)"
proof -
  have total: "\<And>a b. lc a b \<le> 0 \<or> lc b a \<le> 0"
    and trans: "\<And>a b c. lc a b \<le> 0 \<Longrightarrow> lc b c \<le> 0 \<Longrightarrow> lc a c \<le> 0"
    using assms unfolding consistent_comparator_def by blast+
  show ?thesis
    unfolding consistent_comparator_def compareNodes_le_iff
    using total trans by blast
qed

lemma compareNodes_precedes: "compareNodes lc a b \<le> 0 \<Longrightarrow> precedes lc a b"
  by (auto simp: compareNodes_le_iff precedes_def)

lemma sorted_wrt_array_sort_nodes:
  assumes "consistent_comparator lc"
  shows "sorted_wrt (precedes lc) (array_sort (compareNodes lc) xs)"
proof -
  have "sorted_wrt (\<lambda>a b. compareNodes lc a b \<le> 0) (array_sort (compareNodes lc) xs)"
    using assms by (intro sorted_array_sort consistent_compareNodes)
  then show ?thesis
    by (rule sorted_wrt_mono_rel [rotated]) (simp add: compareNodes_precedes)
qed

lemma readNotesDirectory_siblings_sorted:
  "consistent_comparator lc \<Longrightarrow> sorted_wrt (precedes lc) (readNotesDirectory lc p dir)"
  by (cases dir) (simp_all add: sorted_wrt_array_sort_nodes)

lemma readNotesDirectory_sorted_below:
  "consistent_comparator lc \<Longrightarrow> list_all (sorted_below lc) (readNotesDirectory lc p dir)"
  "consistent_comparator lc \<Longrightarrow> list_all (sorted_below lc) (readEntry lc p e)"
proof (induction lc p dir and lc p e rule: readNotesDirectory_readEntry.induct)
  case (1 lc p)
  then show ?case by simp
next
  case (2 lc p entries)
  then show ?case
    by (auto simp: list_all_iff set_array_sort)
next
  case (3 lc p nm isDir listing)
  show ?case
  proof (cases "\<not> startsWith nm ''.'' \<and> isDir")
    case True
    then have "list_all (sorted_below lc) (readNotesDirectory lc (p @ ''/'' @ nm) listing)"
      using "3.IH" "3.prems" by simp
    then show ?thesis
      using True "3.prems" by (simp add: Let_def readNotesDirectory_siblings_sorted)
  next
    case False
    then show ?thesis by (auto simp: Let_def)
  qed
qed

text \<open>
  C6. For every directory tree and every consistent \<open>localeCompare\<close> (total and transitive,
  as a collation is), the result of \<open>readNotesDirectory\<close> is sorted at every level: among
  siblings no file comes before a directory, and within the directories and within the
  files the names are in the order of \<open>localeCompare\<close>. The witness takes the
  case-insensitive lexical comparison for \<open>localeCompare\<close>.
\<close>

theorem readNotesDirectory_sorted:
  "consistent_comparator localeCompare \<Longrightarrow>
   sorted_at_every_level localeCompare (readNotesDirectory localeCompare p dir)"
  by (simp add: sorted_at_every_level_def readNotesDirectory_siblings_sorted
      readNotesDirectory_sorted_below)

lemma consistent_caseInsensitiveCompare: "consistent_comparator caseInsensitiveCompare"
  unfolding consistent_comparator_def caseInsensitiveCompare_def
  by (auto split: if_splits)

theorem readNotesDirectory_sorted_witness:
  "consistent_comparator caseInsensitiveCompare
   \<and> sorted_at_every_level caseInsensitiveCompare
        (readNotesDirectory caseInsensitiveCompare ''/n'' (Some sample_directory))"
  by (intro conjI consistent_caseInsensitiveCompare
      readNotesDirectory_sorted [OF consistent_caseInsensitiveCompare])

lemma readNotesDirectory_example:
  "readNotesDirectory caseInsensitiveCompare ''/n'' (Some sample_directory)
   = [FileNode ''alpha'' ''/n/alpha'' True (Some []) None,
      FileNode ''Zeta'' ''/n/Zeta'' True
        (Some [FileNode ''X.md'' ''/n/Zeta/X.md'' False None None,
               FileNode ''y.md'' ''/n/Zeta/y.md'' False None None]) None,
      FileNode ''A.md'' ''/n/A.md'' False None None,
      FileNode ''b.md'' ''/n/b.md'' False None None]"
  by code_simp

section \<open>Tag scanner: results\<close>

lemma map_fst_increment:
  "map fst (increment t xs) = (if t \<in> fst ` set xs then map fst xs else map fst xs @ [t])"
  by (induction xs) (force split: if_splits)+

lemma distinct_increment:
  "distinct (map fst xs) \<Longrightarrow> distinct (map fst (increment t xs))"
  by (simp add: map_fst_increment)

lemma distinct_scan_note:
  "distinct (map fst acc) \<Longrightarrow> distinct (map fst (scan_note rd p acc))"
  unfolding scan_note_def
  by (auto split: option.splits intro!: fold_invariant [where Q = "\<lambda>x. True"] distinct_increment)

lemma distinct_scanFiles_node:
  "distinct (map fst acc) \<Longrightarrow> distinct (map fst (scanFiles_node rd x acc))"
proof (induction x arbitrary: acc)
  case (FileNode n p d ch fav)
  show ?case
  proof (cases ch)
    case None
    then show ?thesis
      using FileNode.prems by (simp add: distinct_scan_note)
  next
    case (Some cs)
    have step: "\<And>c a. c \<in> set cs \<Longrightarrow> distinct (map fst a) \<Longrightarrow> distinct (map fst (scanFiles_node rd c a))"
      using FileNode.IH Some by auto
    have "distinct (map fst (fold (scanFiles_node rd) cs acc))"
      by (rule fold_invariant [where Q = "\<lambda>c. c \<in> set cs"]) (auto simp: FileNode.prems step)
    then show ?thesis
      using Some FileNode.prems by (simp add: distinct_scan_note)
  qed
qed

lemma distinct_scanFiles:
  "distinct (map fst acc) \<Longrightarrow> distinct (map fst (scanFiles rd nodes acc))"
  unfolding scanFiles_def
  by (rule fold_invariant [where Q = "\<lambda>c. True"]) (auto simp: distinct_scanFiles_node)

lemma distinct_map_insert_by:
  "distinct (map f (insert_by cmp x xs)) \<longleftrightarrow> f x \<notin> f ` set xs \<and> distinct (map f xs)"
  by (induction xs) (auto simp: set_insert_by)

lemma distinct_map_array_sort:
  "distinct (map f (array_sort cmp xs)) \<longleftrightarrow> distinct (map f xs)"
proof (induction xs)
  case Nil
  then show ?case by (simp add: array_sort_def)
next
  case (Cons x xs)
  have "array_sort cmp (x # xs) = insert_by cmp x (array_sort cmp xs)"
    by (simp add: array_sort_def)
  then show ?case
    using Cons by (simp add: distinct_map_insert_by set_array_sort)
qed

lemma consistent_compareTags: "consistent_comparator compareTags"
  by (auto simp: consistent_comparator_def compareTags_def)

text \<open>
  C7. Running the tag scanner on the state left by a first run, with the same note bodies,
  gives the same state again, so the same \<open>TagInfo\<close> list: the same tags with the same
  counts in the same order. That list is in descending order of count and holds each tag
  once.
\<close>

theorem scanAllTags_idempotent:
  "scanAllTags readTextFile (scanAllTags readTextFile st) = scanAllTags readTextFile st
   \<and> sorted_wrt (\<lambda>a b. count b \<le> count a) (allTags (scanAllTags readTextFile st))
   \<and> distinct (map tag (allTags (scanAllTags readTextFile st)))"
proof -
  let ?counts = "scanFiles readTextFile (files st) []"
  let ?infos = "map (\<lambda>(t, c). \<lparr>tag = t, count = c\<rparr>) ?counts"
  have same: "scanAllTags readTextFile (scanAllTags readTextFile st) = scanAllTags readTextFile st"
    by (simp add: scanAllTags_def)
  have "sorted_wrt (\<lambda>a b. compareTags a b \<le> 0) (array_sort compareTags ?infos)"
    using consistent_compareTags by (rule sorted_array_sort)
  then have ordered: "sorted_wrt (\<lambda>a b. count b \<le> count a) (array_sort compareTags ?infos)"
    by (rule sorted_wrt_mono_rel [rotated]) (simp add: compareTags_def)
  have "map tag ?infos = map fst ?counts"
    by (simp add: case_prod_unfold)
  moreover have "distinct (map fst ?counts)"
    by (rule distinct_scanFiles) simp
  ultimately have keyed: "distinct (map tag (array_sort compareTags ?infos))"
    by (simp only: distinct_map_array_sort)
  show ?thesis
    using same ordered keyed by (simp add: scanAllTags_def)
qed

lemma scanAllTags_example:
  "allTags (scanAllTags two_links (initialState\<lparr>files := notes_abc\<rparr>)) = [\<lparr>tag = ''work'', count = 1\<rparr>]"
  by code_simp

section \<open>Backlink finder: results\<close>

lemma pattern_literal_plain:
  "c \<notin> set regex_syntax_chars \<Longrightarrow> pattern_literal (c # r) = map_option ((#) c) (pattern_literal r)"
  by (cases r) (auto simp: regex_syntax_chars_def)

lemma pattern_literal_escaped:
  "c \<in> set regex_syntax_chars \<Longrightarrow>
   pattern_literal (CHR 0x5C # c # r) = map_option ((#) c) (pattern_literal r)"
  by simp

lemma pattern_literal_escapeRegExp:
  "pattern_literal (escapeRegExp s @ r) = map_option ((@) s) (pattern_literal r)"
proof (induction s)
  case Nil
  show ?case by (simp add: escapeRegExp_def option.map_ident)
next
  case (Cons c s)
  have e: "escapeRegExp (c # s) @ r
      = (if c \<in> set regex_syntax_chars then CHR 0x5C # c # (escapeRegExp s @ r)
         else c # (escapeRegExp s @ r))"
    by (simp add: escapeRegExp_def)
  show ?case
    unfolding e using Cons
    by (simp add: pattern_literal_plain pattern_literal_escaped option.map_comp comp_def
        del: pattern_literal.simps)
qed

lemma searchPattern_literal:
  "pattern_literal ([CHR 0x5C] @ ''['' @ [CHR 0x5C] @ ''['' @ escapeRegExp noteName
                     @ [CHR 0x5C] @ '']'' @ [CHR 0x5C] @ '']'')
   = Some (''[['' @ noteName @ '']]'')"
proof -
  have br: "CHR ''['' \<in> set regex_syntax_chars" "CHR '']'' \<in> set regex_syntax_chars"
    by (simp_all add: regex_syntax_chars_def)
  have tl: "pattern_literal ([CHR 0x5C] @ '']'' @ [CHR 0x5C] @ '']'') = Some '']]''"
    using br by simp
  have "pattern_literal (escapeRegExp noteName @ [CHR 0x5C] @ '']'' @ [CHR 0x5C] @ '']'')
        = Some (noteName @ '']]'')"
    unfolding pattern_literal_escapeRegExp tl by simp
  then show ?thesis
    using br by (simp add: pattern_literal_escaped del: pattern_literal.simps)
qed

lemma findBacklinks_resolves:
  "findBacklinks readTextFile noteName st =
     Inr (st\<lparr>backlinks :=
              snd (searchInFiles readTextFile (''[['' @ noteName @ '']]'') (files st) (0, []))\<rparr>)"
  unfolding findBacklinks_def Let_def searchPattern_literal by simp

text \<open>
  C4. The finder is claimed to record one entry for every note with a matching line, whose
  context is the first such line. \<open>searchPattern\<close> carries the flag \<open>g\<close> and is tested
  with \<open>test\<close>, so after the match in one note the next test starts at the position where
  that match ended. With \<open>b.md\<close> and \<open>c.md\<close> both consisting of the line \<open>[[a]]\<close>, the search
  for \<open>a\<close> records \<open>b.md\<close> only: the line of \<open>c.md\<close> is tested from index 5 and fails, although
  tested from index 0 it matches.
\<close>

theorem findBacklinks_misses_second_note:
  "findBacklinks two_links ''a'' (initialState\<lparr>files := notes_abc\<rparr>)
     = Inr (initialState\<lparr>files := notes_abc,
              backlinks := [\<lparr>backlink_path = ''/n/b.md'', backlink_name = ''b'',
                              backlink_context = ''[[a]]''\<rparr>]\<rparr>)
   \<and> regex_test ''[[a]]'' 0 ''[[a]]'' = (True, 5)
   \<and> regex_test ''[[a]]'' 5 ''[[a]]'' = (False, 0)"
  by code_simp

lemma findBacklinks_context_not_first_line:
  "findBacklinks late_link ''a'' (initialState\<lparr>files := notes_abc\<rparr>)
     = Inr (initialState\<lparr>files := notes_abc,
              backlinks := [\<lparr>backlink_path = ''/n/b.md'', backlink_name = ''b'',
                              backlink_context = ''[[a]]''\<rparr>,
                            \<lparr>backlink_path = ''/n/c.md'', backlink_name = ''c'',
                              backlink_context = ''see [[a]] again''\<rparr>]\<rparr>)"
  by code_simp

section \<open>Editor auto-save: results\<close>

lemma well_rendered_mounted: "well_rendered (mounted st)"
  by (simp add: well_rendered_def mounted_def)

lemma well_rendered_step: "well_rendered e \<Longrightarrow> well_rendered (step ev e)"
  by (cases ev)
    (auto simp: well_rendered_def commit_def effect_cleanup_def handleChange_def autoSave_fires_def
      autoSave_settles_def deps_def setContent_def setIsSaving_def setIsDirty_def Let_def
      split: option.splits prod.splits if_splits)

lemma well_rendered_run: "well_rendered e \<Longrightarrow> well_rendered (fold step evs e)"
  by (induction evs arbitrary: e) (simp_all add: well_rendered_step)

lemma step_writes_current_note:
  assumes "well_rendered e"
  shows "\<exists>ws. written (step ev e) = written e @ ws
           \<and> (\<forall>w \<in> set ws. Some (fst w) = currentNote (store e) \<and> snd w = content (store e))"
  using assms
  by (cases ev)
    (auto simp: well_rendered_def commit_def effect_cleanup_def handleChange_def autoSave_fires_def
      autoSave_settles_def deps_def setContent_def setIsSaving_def setIsDirty_def Let_def
      split: option.splits prod.splits if_splits)


lemma flush_on_switch:
  assumes "well_rendered e" "currentNote (store e) = Some A" "A \<noteq> []" "A \<noteq> B"
    and "currentNote (f (store (step (Change v) e))) = Some B"
  shows "written (step (StoreAction f) (step (Change v) e))
           = written e
             @ (if isDirty (store e) \<and> content (store e) \<noteq> v then [(A, content (store e))] else [])
             @ [(A, v)]
         \<and> scheduled (step (StoreAction f) (step (Change v) e)) = None"
proof -
  let ?e1 = "step (Change v) e"
  have r: "rendered e = (Some A, content (store e), isDirty (store e))"
    using assms(1,2) by (simp add: well_rendered_def deps_def)
  have s1: "store ?e1 = setContent v (store e)"
    by (simp add: commit_def effect_cleanup_def handleChange_def Let_def split: prod.splits option.splits)
  have r1: "rendered ?e1 = (Some A, v, True)"
    using r assms(2)
    by (auto simp: commit_def effect_cleanup_def handleChange_def Let_def deps_def setContent_def
        split: prod.splits option.splits)
  have w1: "written ?e1
      = written e @ (if isDirty (store e) \<and> content (store e) \<noteq> v then [(A, content (store e))] else [])"
    using r assms(2,3)
    by (auto simp: commit_def effect_cleanup_def handleChange_def Let_def deps_def setContent_def
        split: prod.splits option.splits)
  have d: "deps (f (store ?e1)) \<noteq> rendered ?e1"
    using assms(4,5) r1 by (auto simp: deps_def)
  have "written (step (StoreAction f) ?e1) = written ?e1 @ [(A, v)]
        \<and> scheduled (step (StoreAction f) ?e1) = None"
    using d r1 assms(3) by (simp add: commit_def effect_cleanup_def)
  then show ?thesis
    using w1 by simp
qed

lemma stale_auto_save_discarded:
  assumes "well_rendered e" "pendingSaveRef e = Some (p, c)" "Some p \<noteq> currentNote (store e)"
  shows "written (step TimerFires e) = written e \<and> store (step TimerFires e) = store e"
  using assms
  by (auto simp: well_rendered_def commit_def autoSave_fires_def split: option.splits)

text \<open>
  C1. In every state the editor can be in between events:
  \<^item> if note \<open>A\<close> (a non-empty path) is open, the text is changed to \<open>v\<close>, and the next event
    is a store action that opens a different note \<open>B\<close> (so the timer has not elapsed in
    between), then the writes made by these two events are to the path \<open>A\<close> only and the
    last of them is \<open>writeTextFile(A, v)\<close>, made by the cleanup at the switch from the
    captured values; a write of the previous dirty content of \<open>A\<close> to \<open>A\<close> may come before
    it. No auto-save is left waiting afterwards;
  \<^item> if the timer elapses while the pending save's path is not the note that is open,
    nothing is written and the store is unchanged.
  Lemma \<open>step_writes_current_note\<close> adds that every write any event makes is the content of
  the store under the path of the note open when the event began.
\<close>

theorem autosave_race_protection:
  assumes "well_rendered e"
  shows "(currentNote (store e) = Some A \<and> A \<noteq> [] \<and> A \<noteq> B
          \<and> currentNote (f (store (step (Change v) e))) = Some B \<longrightarrow>
            written (step (StoreAction f) (step (Change v) e))
              = written e
                @ (if isDirty (store e) \<and> content (store e) \<noteq> v then [(A, content (store e))] else [])
                @ [(A, v)]
            \<and> scheduled (step (StoreAction f) (step (Change v) e)) = None)
         \<and> (pendingSaveRef e = Some (p, c) \<and> Some p \<noteq> currentNote (store e) \<longrightarrow>
            written (step TimerFires e) = written e \<and> store (step TimerFires e) = store e)"
  using flush_on_switch [OF assms] stale_auto_save_discarded [OF assms] by blast

theorem autosave_race_protection_witness:
  "well_rendered editing_a
   \<and> written (step (StoreAction open_note_b) (step (Change ''new'') editing_a))
       = [(''/n/a.md'', ''new'')]
   \<and> scheduled (step (StoreAction open_note_b) (step (Change ''new'') editing_a)) = None
   \<and> currentNote (store (step (StoreAction open_note_b) (step (Change ''new'') editing_a)))
       = Some ''/n/b.md''
   \<and> well_rendered stale_pending
   \<and> pendingSaveRef stale_pending = Some (''/n/a.md'', ''new'')
   \<and> scheduled stale_pending = Some None
   \<and> currentNote (store stale_pending) = None
   \<and> written (step TimerFires stale_pending) = written stale_pending
   \<and> store (step TimerFires stale_pending) = store stale_pending"
proof -
  have wa: "well_rendered editing_a"
    by (simp add: editing_a_def well_rendered_mounted)
  have ws: "well_rendered stale_pending"
    unfolding stale_pending_def using wa by (rule well_rendered_run)
  have a: "currentNote (store editing_a) = Some ''/n/a.md'' \<and> ''/n/a.md'' \<noteq> []
      \<and> ''/n/a.md'' \<noteq> ''/n/b.md''
      \<and> currentNote (open_note_b (store (step (Change ''new'') editing_a))) = Some ''/n/b.md''"
    by code_simp
  have clean: "\<not> isDirty (store editing_a)"
    by code_simp
  have b: "currentNote (store (step (StoreAction open_note_b) (step (Change ''new'') editing_a)))
      = Some ''/n/b.md''"
    by code_simp
  have c: "pendingSaveRef stale_pending = Some (''/n/a.md'', ''new'')
      \<and> scheduled stale_pending = Some None \<and> currentNote (store stale_pending) = None"
    by code_simp
  have e: "written editing_a = []"
    by code_simp
  have "written (step (StoreAction open_note_b) (step (Change ''new'') editing_a))
          = [(''/n/a.md'', ''new'')]
        \<and> scheduled (step (StoreAction open_note_b) (step (Change ''new'') editing_a)) = None"
    using autosave_race_protection
      [OF wa, of "''/n/a.md''" "''/n/b.md''" open_note_b "''new''"] a clean e
    by simp
  moreover have "written (step TimerFires stale_pending) = written stale_pending
        \<and> store (step TimerFires stale_pending) = store stale_pending"
    using autosave_race_protection [OF ws, of _ _ _ _ "''/n/a.md''" "''new''"] c
    by simp
  ultimately show ?thesis
    using wa ws b c by simp
qed

end
